theory Spec2Isabelle
  imports Main "HOL-Library.Word"
begin

section \<open>Thread network topology entries (src/core/thread/topology.hpp)\<close>

text \<open>
  The header declares three classes, \<open>Neighbor\<close>, \<open>Child\<close> and \<open>Router\<close>, and one
  member function, \<open>Neighbor::IsStateValidOrRestoring\<close>.  Fixed-width C++ integers are
  words of the same width, a bit-field of width \<open>w\<close> is a \<open>w word\<close>, and the classes are
  records; \<open>Child\<close> and \<open>Router\<close> extend \<open>Neighbor\<close> as the C++ classes derive from it.

  Types the header only names (\<open>Mac::ExtAddress\<close>, \<open>LinkQualityInfo\<close>, \<open>Ip6::Address\<close>,
  \<open>Message\<close>) are declared in other headers; they are type parameters here
  (\<open>'addr\<close>, \<open>'lqi\<close>, \<open>'ip6\<close>, \<open>'msg\<close>).
\<close>

subsection \<open>Neighbor\<close>

text \<open>
  \<open>enum State\<close>: seven enumerators without initialisers, so their values are 0 to 6 in
  the order of declaration.  The underlying type is \<open>unsigned int\<close> (spelled out under
  \<open>_WIN32\<close>; chosen by the compiler elsewhere, since no enumerator is negative).
\<close>

type_synonym State = "32 word"

definition kStateInvalid :: State where
  "kStateInvalid = 0"

definition kStateRestored :: State where
  "kStateRestored = 1"

definition kStateParentRequest :: State where
  "kStateParentRequest = 2"

definition kStateChildIdRequest :: State where
  "kStateChildIdRequest = 3"

definition kStateLinkRequest :: State where
  "kStateLinkRequest = 4"

definition kStateChildUpdateRequest :: State where
  "kStateChildUpdateRequest = 5"

definition kStateValid :: State where
  "kStateValid = 6"

text \<open>
  The anonymous union of \<open>mValid\<close> and \<open>mPending\<close>.  C++ keeps no tag for a union; the
  constructor of the model stands for the member written last (the union's active
  member), the only one a program may read.
\<close>

datatype Payload =
    mValid (mLinkFrameCounter: "32 word") (mMleFrameCounter: "32 word") (mRloc16: "16 word")
  | mPending (mChallenge: "8 word list") (mChallengeLength: "8 word")

record ('addr, 'lqi) Neighbor =
  mMacAddr :: 'addr
  mLastHeard :: "32 word"
  mPayload :: Payload
  mKeySequence :: "32 word"
  mState :: "3 word"
  mMode :: "4 word"
  mDataRequest :: bool
  mLinkFailures :: "8 word"
  mLinkInfo :: 'lqi

text \<open>
  Writing and reading the bit-field \<open>State mState : 3\<close>.  A store converts the
  enumeration value to an unsigned field of three bits, which keeps the value modulo 8;
  a read converts the field back to the enumeration type.
\<close>

definition set_mState :: "State \<Rightarrow> ('addr, 'lqi, 'z) Neighbor_scheme \<Rightarrow> ('addr, 'lqi, 'z) Neighbor_scheme" where
  "set_mState s n = n\<lparr>mState := ucast s\<rparr>"

definition get_mState :: "('addr, 'lqi, 'z) Neighbor_scheme \<Rightarrow> State" where
  "get_mState n = ucast (mState n)"

text \<open>
  \<open>bool IsStateValidOrRestoring(void) const\<close>: a switch on \<open>mState\<close> with three case
  labels that return true and a default that returns false.
\<close>

definition IsStateValidOrRestoring :: "('addr, 'lqi, 'z) Neighbor_scheme \<Rightarrow> bool" where
  "IsStateValidOrRestoring n =
     (let s = get_mState n in
      if s = kStateValid then True
      else if s = kStateRestored then True
      else if s = kStateChildUpdateRequest then True
      else False)"

subsection \<open>Child\<close>

text \<open>
  \<open>mIndirectSendInfo\<close>, the anonymous struct about the current outbound indirect
  message.  \<open>Message *mMessage\<close> is a pointer: \<open>None\<close> is the null pointer.
\<close>

record 'msg IndirectSendInfo =
  mFrameCounter :: "32 word"
  mMessage :: "'msg option"
  mFragmentOffset :: "16 word"
  mKeyId :: "8 word"
  mTxAttemptCounter :: "8 word"
  mDataSequenceNumber :: "8 word"

text \<open>The second anonymous union, of \<open>mRequestTlvs\<close> and \<open>mAttachChallenge\<close>.\<close>

datatype ChildScratch =
    mRequestTlvs "8 word list"
  | mAttachChallenge "8 word list"

record ('addr, 'lqi, 'ip6, 'msg) Child = "('addr, 'lqi) Neighbor" +
  mIp6Address :: "'ip6 list"
  mTimeout :: "32 word"
  mIndirectSendInfo :: "'msg IndirectSendInfo"
  mScratch :: ChildScratch
  mNetworkDataVersion :: "8 word"
  mQueuedIndirectMessageCnt :: "16 word"
  mAddSrcMatchEntryShort :: bool
  mAddSrcMatchEntryPending :: bool

subsection \<open>Router\<close>

record ('addr, 'lqi) Router = "('addr, 'lqi) Neighbor" +
  mNextHop :: "8 word"
  mLinkQualityOut :: "2 word"
  mCost :: "4 word"
  mAllocated :: bool
  mReclaimDelay :: bool

text \<open>
  Stores into the bit-fields \<open>uint8_t mLinkQualityOut : 2\<close> and \<open>uint8_t mCost : 4\<close>.
  The value stored is an integer of any width (after the usual promotions an \<open>int\<close>);
  the conversion to the unsigned field keeps its low bits.
\<close>

definition set_mLinkQualityOut :: "'w::len word \<Rightarrow> ('addr, 'lqi, 'z) Router_scheme \<Rightarrow> ('addr, 'lqi, 'z) Router_scheme" where
  "set_mLinkQualityOut v r = r\<lparr>mLinkQualityOut := ucast v\<rparr>"

definition set_mCost :: "'w::len word \<Rightarrow> ('addr, 'lqi, 'z) Router_scheme \<Rightarrow> ('addr, 'lqi, 'z) Router_scheme" where
  "set_mCost v r = r\<lparr>mCost := ucast v\<rparr>"

section \<open>Operations described by the specification\<close>

text \<open>
  The header holds the data only.  The code that queues messages for sleepy children and
  the code that hands out table slots live in other files of the repository; the
  definitions of this section are written from the specification's description of them
  and use the fields of \<open>Child\<close> and \<open>Router\<close> declared above.
\<close>

subsection \<open>Indirect (buffered) message delivery\<close>

text \<open>
  Modelled from the spec: the events the Indirect Delivery Manager consumes (sections 4.4
  and 6: enqueue, data-poll indication, transmit-complete); the manager's code is not in
  topology.hpp.  An enqueue and a transmit-complete carry the device's current security
  frame counter and key id, a data poll the freshly assigned link-layer sequence number.
\<close>

datatype 'msg IndirectEvent =
    Enqueue 'msg "32 word" "8 word"
  | DataPoll "8 word"
  | TransmitComplete bool "32 word" "8 word"

text \<open>
  Modelled from the spec: what the manager does in answer, as far as a collaborator can
  observe it (sections 4.4 and 7): a message is accepted or refused with \<open>QueueOverflow\<close>;
  the in-flight message is transmitted with its frame counter, key id, fragment offset and
  sequence number; it is delivered, or dropped with \<open>RetryExhausted\<close>.
\<close>

datatype 'msg IndirectAction =
    Accepted 'msg
  | QueueOverflow 'msg
  | Transmit 'msg "32 word" "8 word" "16 word" "8 word"
  | Delivered 'msg
  | RetryExhausted 'msg

text \<open>
  Modelled from the spec: the retry cap \<open>kRetryCap\<close> (section 8) and the configured
  per-child queue depth (section 7); the spec names both and gives neither a value.
\<close>

record IndirectConfig =
  kRetryCap :: nat
  kQueueDepth :: nat

text \<open>
  Modelled from the spec: a sleepy child with the messages queued behind its in-flight
  message, oldest first (section 9: a small FIFO queue per Child entry).  The \<open>Child\<close>
  of the header holds the in-flight message in \<open>mIndirectSendInfo\<close> and, of the queue,
  only the count.
\<close>

record ('addr, 'lqi, 'ip6, 'msg) SleepyChild =
  sChild :: "('addr, 'lqi, 'ip6, 'msg) Child"
  sQueue :: "'msg list"

text \<open>Modelled from the spec: reading and writing the in-flight slot and the queued count.\<close>

definition info :: "('addr, 'lqi, 'ip6, 'msg) SleepyChild \<Rightarrow> 'msg IndirectSendInfo" where
  "info s = mIndirectSendInfo (sChild s)"

text \<open>Modelled from the spec: writing the in-flight slot.\<close>

definition set_info :: "'msg IndirectSendInfo \<Rightarrow> ('addr, 'lqi, 'ip6, 'msg) SleepyChild
    \<Rightarrow> ('addr, 'lqi, 'ip6, 'msg) SleepyChild" where
  "set_info i s = s\<lparr>sChild := (sChild s)\<lparr>mIndirectSendInfo := i\<rparr>\<rparr>"

text \<open>Modelled from the spec: reading the queued count.\<close>

definition count :: "('addr, 'lqi, 'ip6, 'msg) SleepyChild \<Rightarrow> 16 word" where
  "count s = mQueuedIndirectMessageCnt (sChild s)"

text \<open>Modelled from the spec: writing the queued count.\<close>

definition set_count :: "16 word \<Rightarrow> ('addr, 'lqi, 'ip6, 'msg) SleepyChild
    \<Rightarrow> ('addr, 'lqi, 'ip6, 'msg) SleepyChild" where
  "set_count n s = s\<lparr>sChild := (sChild s)\<lparr>mQueuedIndirectMessageCnt := n\<rparr>\<rparr>"

text \<open>
  Modelled from the spec: a message becomes the in-flight message "with the device's
  current security frame counter snapshotted", its attempt counter and fragment offset
  reset (section 4.4, steps 1 and 3).
\<close>

definition BecomeInFlight :: "'msg \<Rightarrow> 32 word \<Rightarrow> 8 word \<Rightarrow> ('addr, 'lqi, 'ip6, 'msg) SleepyChild
    \<Rightarrow> ('addr, 'lqi, 'ip6, 'msg) SleepyChild" where
  "BecomeInFlight m fc kid s =
     set_info ((info s)\<lparr>mFrameCounter := fc, mMessage := Some m, mFragmentOffset := 0,
                        mKeyId := kid, mTxAttemptCounter := 0\<rparr>) s"

text \<open>
  Modelled from the spec: the end of the in-flight message, by delivery or by retry
  exhaustion: it "clears the in-flight slot and promotes the next queued message (if any)
  to in-flight" (section 4.4, step 3).  The promoted message is no longer queued, so the
  count of messages queued beyond the one in flight (section 3) goes down by one.
\<close>

definition FinishCurrent :: "32 word \<Rightarrow> 8 word \<Rightarrow> ('addr, 'lqi, 'ip6, 'msg) SleepyChild
    \<Rightarrow> ('addr, 'lqi, 'ip6, 'msg) SleepyChild" where
  "FinishCurrent fc kid s =
     (case sQueue s of
        [] \<Rightarrow> set_info ((info s)\<lparr>mMessage := None\<rparr>) s
      | m # ms \<Rightarrow> (set_count (count s - 1) (BecomeInFlight m fc kid s))\<lparr>sQueue := ms\<rparr>)"

text \<open>
  Modelled from the spec: step 1 of section 4.4, "a message destined for a sleepy child
  is enqueued, incrementing the queued count if a message is already in flight, else
  becoming the in-flight message", with the \<open>QueueOverflow\<close> of section 7: beyond the
  queue depth "the new message is rejected" and the "existing queue is untouched".
\<close>

definition HandleEnqueue :: "IndirectConfig \<Rightarrow> 'msg \<Rightarrow> 32 word \<Rightarrow> 8 word
    \<Rightarrow> ('addr, 'lqi, 'ip6, 'msg) SleepyChild
    \<Rightarrow> 'msg IndirectAction list \<times> ('addr, 'lqi, 'ip6, 'msg) SleepyChild" where
  "HandleEnqueue cfg m fc kid s =
     (case mMessage (info s) of
        None \<Rightarrow> ([Accepted m], BecomeInFlight m fc kid s)
      | Some cur \<Rightarrow>
          if kQueueDepth cfg \<le> length (sQueue s) then ([QueueOverflow m], s)
          else ([Accepted m], (set_count (count s + 1) s)\<lparr>sQueue := sQueue s @ [m]\<rparr>))"

text \<open>
  Modelled from the spec: step 2 of section 4.4, "on receiving a data-poll indication
  from that child, the in-flight message is transmitted using the snapshotted counter,
  fragment offset, and a freshly assigned link-layer sequence number".
\<close>

definition HandleDataPoll :: "8 word \<Rightarrow> ('addr, 'lqi, 'ip6, 'msg) SleepyChild
    \<Rightarrow> 'msg IndirectAction list \<times> ('addr, 'lqi, 'ip6, 'msg) SleepyChild" where
  "HandleDataPoll dsn s =
     (case mMessage (info s) of
        None \<Rightarrow> ([], s)
      | Some cur \<Rightarrow>
          ([Transmit cur (mFrameCounter (info s)) (mKeyId (info s)) (mFragmentOffset (info s)) dsn],
           set_info ((info s)\<lparr>mDataSequenceNumber := dsn\<rparr>) s))"

text \<open>
  Modelled from the spec: step 3 of section 4.4.  Success ends the in-flight message;
  "failure increments the attempt counter and, if it remains under the retry cap, leaves
  the message in flight for the next poll"; "exceeding the retry cap drops the message
  and promotes the next queued one".  By section 8 a message that has failed exactly
  \<open>kRetryCap\<close> times is still in flight and is dropped on the next failure.
\<close>

definition HandleTransmitComplete :: "IndirectConfig \<Rightarrow> bool \<Rightarrow> 32 word \<Rightarrow> 8 word
    \<Rightarrow> ('addr, 'lqi, 'ip6, 'msg) SleepyChild
    \<Rightarrow> 'msg IndirectAction list \<times> ('addr, 'lqi, 'ip6, 'msg) SleepyChild" where
  "HandleTransmitComplete cfg ok fc kid s =
     (case mMessage (info s) of
        None \<Rightarrow> ([], s)
      | Some cur \<Rightarrow>
          if ok then ([Delivered cur], FinishCurrent fc kid s)
          else if unat (mTxAttemptCounter (info s) + 1) \<le> kRetryCap cfg
          then ([], set_info ((info s)\<lparr>mTxAttemptCounter := mTxAttemptCounter (info s) + 1\<rparr>) s)
          else ([RetryExhausted cur], FinishCurrent fc kid s))"

text \<open>
  Modelled from the spec: one callback of the manager (section 5: "each step is a
  separate, non-blocking callback invocation that reads and updates persistent per-entry
  state").
\<close>

fun step :: "IndirectConfig \<Rightarrow> 'msg IndirectEvent \<Rightarrow> ('addr, 'lqi, 'ip6, 'msg) SleepyChild
    \<Rightarrow> 'msg IndirectAction list \<times> ('addr, 'lqi, 'ip6, 'msg) SleepyChild" where
  "step cfg (Enqueue m fc kid) s = HandleEnqueue cfg m fc kid s"
| "step cfg (DataPoll dsn) s = HandleDataPoll dsn s"
| "step cfg (TransmitComplete ok fc kid) s = HandleTransmitComplete cfg ok fc kid s"

text \<open>
  Modelled from the spec: the serialized event-processing context of section 5; the
  events are handled one after the other.  \<open>run\<close> gives the actions in the order they
  happen, \<open>exec\<close> the child afterwards.
\<close>

fun run :: "IndirectConfig \<Rightarrow> 'msg IndirectEvent list \<Rightarrow> ('addr, 'lqi, 'ip6, 'msg) SleepyChild
    \<Rightarrow> 'msg IndirectAction list" where
  "run cfg [] s = []"
| "run cfg (e # es) s = fst (step cfg e s) @ run cfg es (snd (step cfg e s))"

text \<open>Modelled from the spec: the child after the events (see \<open>run\<close>).\<close>

fun exec :: "IndirectConfig \<Rightarrow> 'msg IndirectEvent list \<Rightarrow> ('addr, 'lqi, 'ip6, 'msg) SleepyChild
    \<Rightarrow> ('addr, 'lqi, 'ip6, 'msg) SleepyChild" where
  "exec cfg [] s = s"
| "exec cfg (e # es) s = exec cfg es (snd (step cfg e s))"

text \<open>
  Reading a list of actions: the messages accepted for the child, in the order of their
  enqueueing, and the messages that were delivered or dropped by retry exhaustion, in the
  order in which that happened.
\<close>

fun accepted :: "'msg IndirectAction list \<Rightarrow> 'msg list" where
  "accepted [] = []"
| "accepted (Accepted m # as) = m # accepted as"
| "accepted (a # as) = accepted as"

fun finished :: "'msg IndirectAction list \<Rightarrow> 'msg list" where
  "finished [] = []"
| "finished (Delivered m # as) = m # finished as"
| "finished (RetryExhausted m # as) = m # finished as"
| "finished (a # as) = finished as"

text \<open>The messages a child still owes: the one in flight, then the queue.\<close>

definition pending :: "('addr, 'lqi, 'ip6, 'msg) SleepyChild \<Rightarrow> 'msg list" where
  "pending s = (case mMessage (info s) of None \<Rightarrow> [] | Some m \<Rightarrow> [m]) @ sQueue s"

text \<open>A child with nothing in flight and nothing queued, as a fresh entry is.\<close>

definition idle :: "('addr, 'lqi, 'ip6, 'msg) SleepyChild \<Rightarrow> bool" where
  "idle s = (mMessage (info s) = None \<and> sQueue s = [])"

text \<open>No message waits in the queue while the in-flight slot is empty.\<close>

definition consistent :: "('addr, 'lqi, 'ip6, 'msg) SleepyChild \<Rightarrow> bool" where
  "consistent s = (mMessage (info s) = None \<longrightarrow> sQueue s = [])"

subsection \<open>Topology table: allocation and release\<close>

text \<open>
  Modelled from the spec: the two kinds of pooled entries of the Topology Table
  (section 4.2, \<open>Allocate(kind)\<close>); the table's code is not in topology.hpp.
\<close>

datatype EntryKind = ChildEntry | RouterEntry

text \<open>Modelled from the spec: the error of \<open>Allocate\<close> on a full table (section 7).\<close>

datatype TableError = TableFull

text \<open>
  Modelled from the spec: a slot of the Child collection.  The spec speaks of a free pool
  of slots (section 4.2) and the header gives \<open>Child\<close> no flag for it, so the slot
  carries one.
\<close>

record 'c ChildSlot =
  cInUse :: bool
  cEntry :: 'c

text \<open>
  Modelled from the spec: the table "owns fixed-capacity collections of Child entries and
  Router entries" (section 4.2); an entry is referred to by the index of its slot
  (section 9).  A Router slot is the \<open>Router\<close> of the header, whose \<open>mAllocated\<close> and
  \<open>mReclaimDelay\<close> say whether the slot is in use or held back.
\<close>

record ('addr, 'lqi, 'ip6, 'msg) Table =
  tChildren :: "('addr, 'lqi, 'ip6, 'msg) Child ChildSlot list"
  tRouters :: "('addr, 'lqi) Router list"

text \<open>Modelled from the spec: a Child slot of the free pool.\<close>

definition ChildFree :: "'c ChildSlot \<Rightarrow> bool" where
  "ChildFree c = (\<not> cInUse c)"

text \<open>
  Modelled from the spec: a Router slot that may be handed out: not allocated, and not
  "vacated but held back from reuse" (section 3, \<open>reclaimDelay\<close>).
\<close>

definition RouterFree :: "('addr, 'lqi) Router \<Rightarrow> bool" where
  "RouterFree r = (\<not> mAllocated r \<and> \<not> mReclaimDelay r)"

text \<open>Modelled from the spec: the index of the first free slot of a collection, if any.\<close>

fun find_free :: "('a \<Rightarrow> bool) \<Rightarrow> 'a list \<Rightarrow> nat option" where
  "find_free free [] = None"
| "find_free free (x # xs) = (if free x then Some 0 else map_option Suc (find_free free xs))"

text \<open>Modelled from the spec: "no free slot of that kind exists" (section 4.2).\<close>

fun Full :: "EntryKind \<Rightarrow> ('addr, 'lqi, 'ip6, 'msg) Table \<Rightarrow> bool" where
  "Full ChildEntry t = list_all (\<lambda>c. \<not> ChildFree c) (tChildren t)"
| "Full RouterEntry t = list_all (\<lambda>r. \<not> RouterFree r) (tRouters t)"

text \<open>
  Modelled from the spec: "\<open>Allocate(kind)\<close> -> new entry in state Invalid, or Full error
  if no free slot of that kind exists" (section 4.2).  The table does not evict.  The
  result is the error or the slot's index, with the table afterwards.
\<close>

fun Allocate :: "EntryKind \<Rightarrow> ('addr, 'lqi, 'ip6, 'msg) Table
    \<Rightarrow> (TableError + nat) \<times> ('addr, 'lqi, 'ip6, 'msg) Table" where
  "Allocate ChildEntry t =
     (case find_free ChildFree (tChildren t) of
        None \<Rightarrow> (Inl TableFull, t)
      | Some i \<Rightarrow>
          (Inr i, t\<lparr>tChildren := (tChildren t)
             [i := \<lparr>cInUse = True, cEntry = set_mState kStateInvalid (cEntry (tChildren t ! i))\<rparr>]\<rparr>))"
| "Allocate RouterEntry t =
     (case find_free RouterFree (tRouters t) of
        None \<Rightarrow> (Inl TableFull, t)
      | Some i \<Rightarrow>
          (Inr i, t\<lparr>tRouters := (tRouters t)
             [i := set_mState kStateInvalid ((tRouters t ! i)\<lparr>mAllocated := True\<rparr>)]\<rparr>))"

text \<open>
  Modelled from the spec: "\<open>Release(entry)\<close> returns a slot to the free pool; for Router
  entries this defers actual reuse until \<open>reclaimDelay\<close> elapses" (section 4.2).  An index
  that names no slot releases nothing.
\<close>

fun Release :: "EntryKind \<Rightarrow> nat \<Rightarrow> ('addr, 'lqi, 'ip6, 'msg) Table
    \<Rightarrow> ('addr, 'lqi, 'ip6, 'msg) Table" where
  "Release ChildEntry i t =
     (if i < length (tChildren t)
      then t\<lparr>tChildren := (tChildren t)[i := (tChildren t ! i)\<lparr>cInUse := False\<rparr>]\<rparr>
      else t)"
| "Release RouterEntry i t =
     (if i < length (tRouters t)
      then t\<lparr>tRouters := (tRouters t)
             [i := (tRouters t ! i)\<lparr>mAllocated := False, mReclaimDelay := True\<rparr>]\<rparr>
      else t)"

text \<open>
  Modelled from the spec: the end of a Router slot's reclaim delay.  Time is kept by the
  external timer collaborator, which signals expiry as a discrete event (section 5).
\<close>

definition ReclaimDelayElapsed :: "nat \<Rightarrow> ('addr, 'lqi, 'ip6, 'msg) Table
    \<Rightarrow> ('addr, 'lqi, 'ip6, 'msg) Table" where
  "ReclaimDelayElapsed i t =
     (if i < length (tRouters t)
      then t\<lparr>tRouters := (tRouters t)[i := (tRouters t ! i)\<lparr>mReclaimDelay := False\<rparr>]\<rparr>
      else t)"

subsection \<open>Entries used in the examples\<close>

definition exampleChild :: "(unit, unit, unit, nat) Child" where
  "exampleChild =
     \<lparr>mMacAddr = (), mLastHeard = 0, mPayload = mValid 0 0 1025, mKeySequence = 0,
      mState = 6, mMode = 0, mDataRequest = False, mLinkFailures = 0, mLinkInfo = (),
      mIp6Address = [], mTimeout = 240,
      mIndirectSendInfo = \<lparr>mFrameCounter = 0, mMessage = None, mFragmentOffset = 0,
        mKeyId = 0, mTxAttemptCounter = 0, mDataSequenceNumber = 0\<rparr>,
      mScratch = mRequestTlvs [], mNetworkDataVersion = 0, mQueuedIndirectMessageCnt = 0,
      mAddSrcMatchEntryShort = False, mAddSrcMatchEntryPending = False\<rparr>"

definition exampleRouter :: "(unit, unit) Router" where
  "exampleRouter =
     \<lparr>mMacAddr = (), mLastHeard = 0, mPayload = mValid 0 0 2048, mKeySequence = 0,
      mState = 6, mMode = 15, mDataRequest = False, mLinkFailures = 0, mLinkInfo = (),
      mNextHop = 2, mLinkQualityOut = 3, mCost = 1, mAllocated = True,
      mReclaimDelay = False\<rparr>"

definition exampleTable :: "(unit, unit, unit, nat) Table" where
  "exampleTable =
     \<lparr>tChildren = [\<lparr>cInUse = True, cEntry = exampleChild\<rparr>,
                   \<lparr>cInUse = True, cEntry = exampleChild\<rparr>],
      tRouters = [exampleRouter, exampleRouter]\<rparr>"

definition exampleEvents :: "nat IndirectEvent list" where
  "exampleEvents =
     [Enqueue 1 100 1, Enqueue 2 101 1, DataPoll 7, TransmitComplete False 102 1,
      DataPoll 8, TransmitComplete True 103 1, DataPoll 9]"

section \<open>Properties\<close>

lemmas State_defs = kStateInvalid_def kStateRestored_def kStateParentRequest_def
  kStateChildIdRequest_def kStateLinkRequest_def kStateChildUpdateRequest_def kStateValid_def

lemma State_values:
  "map unat [kStateInvalid, kStateRestored, kStateParentRequest, kStateChildIdRequest,
     kStateLinkRequest, kStateChildUpdateRequest, kStateValid] = [0, 1, 2, 3, 4, 5, 6]"
  by (simp add: State_defs)

lemma get_set_mState: "get_mState (set_mState s n) = take_bit 3 s"
  by (simp add: get_mState_def set_mState_def) (simp add: unsigned_ucast_eq)

subsection \<open>The state predicate\<close>

text \<open>
  Claim C1.  \<open>IsStateValidOrRestoring\<close> returns true exactly when the state read from
  \<open>mState\<close> is \<open>kStateValid\<close>, \<open>kStateRestored\<close> or \<open>kStateChildUpdateRequest\<close>; in each
  of the states \<open>kStateInvalid\<close>, \<open>kStateParentRequest\<close>, \<open>kStateChildIdRequest\<close> and
  \<open>kStateLinkRequest\<close> it returns false.  (The field has three bits, so it can also hold
  7, which is no enumerator; the default branch answers false there too.)
\<close>

theorem IsStateValidOrRestoring_iff:
  "IsStateValidOrRestoring n =
     (get_mState n \<in> {kStateValid, kStateRestored, kStateChildUpdateRequest})
   \<and> (get_mState n \<in> {kStateInvalid, kStateParentRequest, kStateChildIdRequest,
          kStateLinkRequest} \<longrightarrow> \<not> IsStateValidOrRestoring n)"
  by (auto simp add: IsStateValidOrRestoring_def Let_def State_defs)

text \<open>
  A neighbor in \<open>kStateParentRequest\<close> and the same neighbor moved to
  \<open>kStateChildUpdateRequest\<close>.
\<close>

theorem IsStateValidOrRestoring_iff_witness:
  "get_mState (set_mState kStateParentRequest
       \<lparr>mMacAddr = (), mLastHeard = 17, mPayload = mPending [1, 2, 3] 3, mKeySequence = 0,
        mState = 0, mMode = 9, mDataRequest = False, mLinkFailures = 0, mLinkInfo = ()\<rparr>)
     \<in> {kStateInvalid, kStateParentRequest, kStateChildIdRequest, kStateLinkRequest}
   \<and> \<not> IsStateValidOrRestoring (set_mState kStateParentRequest
       \<lparr>mMacAddr = (), mLastHeard = 17, mPayload = mPending [1, 2, 3] 3, mKeySequence = 0,
        mState = 0, mMode = 9, mDataRequest = False, mLinkFailures = 0, mLinkInfo = ()\<rparr>)
   \<and> IsStateValidOrRestoring (set_mState kStateChildUpdateRequest
       \<lparr>mMacAddr = (), mLastHeard = 17, mPayload = mPending [1, 2, 3] 3, mKeySequence = 0,
        mState = 0, mMode = 9, mDataRequest = False, mLinkFailures = 0, mLinkInfo = ()\<rparr>)"
  using IsStateValidOrRestoring_iff [of "set_mState kStateParentRequest
       \<lparr>mMacAddr = (), mLastHeard = 17, mPayload = mPending [1, 2, 3] 3, mKeySequence = 0,
        mState = 0, mMode = 9, mDataRequest = False, mLinkFailures = 0, mLinkInfo = ()\<rparr>"]
    IsStateValidOrRestoring_iff [of "set_mState kStateChildUpdateRequest
       \<lparr>mMacAddr = (), mLastHeard = 17, mPayload = mPending [1, 2, 3] 3, mKeySequence = 0,
        mState = 0, mMode = 9, mDataRequest = False, mLinkFailures = 0, mLinkInfo = ()\<rparr>"]
  by (simp add: get_set_mState State_defs)

text \<open>
  Claim C9.  The result of \<open>IsStateValidOrRestoring\<close> depends on \<open>mState\<close> alone: two
  entries with equal \<open>mState\<close> (of any of the three classes, whatever their other fields
  hold) give the same answer, and overwriting every other field of an entry leaves the
  answer as it was.  The member function is declared \<open>const\<close> and assigns nothing; the
  model is accordingly a function from the entry to \<open>bool\<close> that returns no entry.
\<close>

theorem IsStateValidOrRestoring_depends_on_mState_only:
  "(mState a = mState b \<longrightarrow> IsStateValidOrRestoring a = IsStateValidOrRestoring b)
   \<and> IsStateValidOrRestoring
        (n\<lparr>mMacAddr := addr, mLastHeard := t, mPayload := p, mKeySequence := k, mMode := m,
           mDataRequest := d, mLinkFailures := f, mLinkInfo := q\<rparr>)
       = IsStateValidOrRestoring n"
  by (simp add: IsStateValidOrRestoring_def get_mState_def)

text \<open>
  Two entries in state \<open>kStateValid\<close> (6) that differ in every other field, and a third
  in state \<open>kStateLinkRequest\<close> (4) that agrees with the first in every other field.
\<close>

theorem IsStateValidOrRestoring_depends_on_mState_only_witness:
  "mState \<lparr>mMacAddr = (1::nat), mLastHeard = 17, mPayload = mPending [1, 2, 3] 3,
       mKeySequence = 0, mState = 6, mMode = 9, mDataRequest = False, mLinkFailures = 0,
       mLinkInfo = True\<rparr>
   = mState \<lparr>mMacAddr = (2::nat), mLastHeard = 99, mPayload = mValid 5 6 1024,
       mKeySequence = 4, mState = 6, mMode = 2, mDataRequest = True, mLinkFailures = 3,
       mLinkInfo = False\<rparr>
   \<and> IsStateValidOrRestoring \<lparr>mMacAddr = (1::nat), mLastHeard = 17,
       mPayload = mPending [1, 2, 3] 3, mKeySequence = 0, mState = 6, mMode = 9,
       mDataRequest = False, mLinkFailures = 0, mLinkInfo = True\<rparr>
   \<and> IsStateValidOrRestoring \<lparr>mMacAddr = (2::nat), mLastHeard = 99,
       mPayload = mValid 5 6 1024, mKeySequence = 4, mState = 6, mMode = 2,
       mDataRequest = True, mLinkFailures = 3, mLinkInfo = False\<rparr>
   \<and> \<not> IsStateValidOrRestoring \<lparr>mMacAddr = (1::nat), mLastHeard = 17,
       mPayload = mPending [1, 2, 3] 3, mKeySequence = 0, mState = 4, mMode = 9,
       mDataRequest = False, mLinkFailures = 0, mLinkInfo = True\<rparr>"
proof -
  have valid: "IsStateValidOrRestoring \<lparr>mMacAddr = (1::nat), mLastHeard = 17,
       mPayload = mPending [1, 2, 3] 3, mKeySequence = 0, mState = 6, mMode = 9,
       mDataRequest = False, mLinkFailures = 0, mLinkInfo = True\<rparr>"
    by (simp add: IsStateValidOrRestoring_def get_mState_def State_defs)
  have link: "\<not> IsStateValidOrRestoring \<lparr>mMacAddr = (1::nat), mLastHeard = 17,
       mPayload = mPending [1, 2, 3] 3, mKeySequence = 0, mState = 4, mMode = 9,
       mDataRequest = False, mLinkFailures = 0, mLinkInfo = True\<rparr>"
    by (simp add: IsStateValidOrRestoring_def get_mState_def State_defs)
  from valid link show ?thesis
    using IsStateValidOrRestoring_depends_on_mState_only
      [THEN conjunct1,
       of "\<lparr>mMacAddr = (1::nat), mLastHeard = 17, mPayload = mPending [1, 2, 3] 3,
            mKeySequence = 0, mState = 6, mMode = 9, mDataRequest = False,
            mLinkFailures = 0, mLinkInfo = True\<rparr>"
          "\<lparr>mMacAddr = (2::nat), mLastHeard = 99, mPayload = mValid 5 6 1024,
            mKeySequence = 4, mState = 6, mMode = 2, mDataRequest = True,
            mLinkFailures = 3, mLinkInfo = False\<rparr>"]
    by simp
qed

subsection \<open>Bit-fields\<close>

text \<open>
  Claim C10.  Each of the seven declared states, whose values are 0 to 6, fits the
  three bits of \<open>mState\<close>: storing it and reading it back gives the same state.
\<close>

theorem mState_roundtrip:
  "s \<in> {kStateInvalid, kStateRestored, kStateParentRequest, kStateChildIdRequest,
        kStateLinkRequest, kStateChildUpdateRequest, kStateValid}
   \<Longrightarrow> unat s \<le> 6 \<and> get_mState (set_mState s n) = s"
  by (auto simp add: get_mState_def set_mState_def State_defs)

theorem mState_roundtrip_witness:
  "kStateValid \<in> {kStateInvalid, kStateRestored, kStateParentRequest, kStateChildIdRequest,
        kStateLinkRequest, kStateChildUpdateRequest, kStateValid}
   \<and> unat kStateValid \<le> 6
   \<and> get_mState (set_mState kStateValid
        \<lparr>mMacAddr = (), mLastHeard = 0, mPayload = mValid 0 0 0, mKeySequence = 0,
         mState = 0, mMode = 0, mDataRequest = False, mLinkFailures = 0, mLinkInfo = ()\<rparr>)
      = kStateValid"
  using mState_roundtrip [of kStateValid
        "\<lparr>mMacAddr = (), mLastHeard = 0, mPayload = mValid 0 0 0, mKeySequence = 0,
         mState = 0, mMode = 0, mDataRequest = False, mLinkFailures = 0, mLinkInfo = ()\<rparr>"]
  by simp

text \<open>
  Claim C5.  A Router's \<open>mCost\<close> is at most 15 and its \<open>mLinkQualityOut\<close> at most 3,
  whatever was stored; a store into either field keeps the stored value modulo \<open>2 ^ 4\<close>
  and \<open>2 ^ 2\<close>.  (The field itself does not saturate: capping a sum of costs at 15,
  the value read as unreachable, is left to the code that computes the sum.)
\<close>

theorem Router_bitfield_bounds:
  "unat (mCost r) \<le> 15 \<and> unat (mLinkQualityOut r) \<le> 3
   \<and> unat (mCost (set_mCost v r)) = unat v mod 2 ^ 4
   \<and> unat (mLinkQualityOut (set_mLinkQualityOut w r)) = unat w mod 2 ^ 2"
proof -
  have "unat (mCost r) < 2 ^ 4"
    using unsigned_less [of "mCost r"] by simp
  moreover have "unat (mLinkQualityOut r) < 2 ^ 2"
    using unsigned_less [of "mLinkQualityOut r"] by simp
  ultimately show ?thesis
    by (simp add: set_mCost_def set_mLinkQualityOut_def unsigned_ucast_eq take_bit_eq_mod)
qed

text \<open>A cost of 18 stored into the field reads back as 2, not as 15.\<close>

lemma set_mCost_wraps: "mCost (set_mCost (18 :: 8 word) r) = 2"
  by (simp add: set_mCost_def)

subsection \<open>Indirect delivery is first in, first out\<close>

text \<open>
  The lemmas follow one invariant through the callbacks: the messages accepted so far are
  the messages finished so far, then the message in flight, then the queue.
\<close>

lemma accepted_append: "accepted (xs @ ys) = accepted xs @ accepted ys"
  by (induction xs rule: accepted.induct) simp_all

lemma finished_append: "finished (xs @ ys) = finished xs @ finished ys"
  by (induction xs rule: finished.induct) simp_all

lemma info_simps:
  "info (set_info i s) = i" "sQueue (set_info i s) = sQueue s"
  "info (set_count n s) = info s" "sQueue (set_count n s) = sQueue s"
  "info (s\<lparr>sQueue := q\<rparr>) = info s"
  by (simp_all add: info_def set_info_def set_count_def)

lemma step_consistent: "consistent s \<Longrightarrow> consistent (snd (step cfg e s))"
  by (cases e)
    (auto simp add: consistent_def HandleEnqueue_def HandleDataPoll_def
      HandleTransmitComplete_def FinishCurrent_def BecomeInFlight_def info_simps
      split: option.splits list.splits)

lemma step_pending:
  assumes "consistent s" "accepted h = finished h @ pending s"
  shows "accepted (h @ fst (step cfg e s)) = finished (h @ fst (step cfg e s)) @ pending (snd (step cfg e s))"
  using assms
  by (cases e)
    (auto simp add: consistent_def pending_def accepted_append finished_append
      HandleEnqueue_def HandleDataPoll_def
      HandleTransmitComplete_def FinishCurrent_def BecomeInFlight_def info_simps
      split: option.splits list.splits)

lemma step_actions: "fst (step cfg e s) = [] \<or> (\<exists>a. fst (step cfg e s) = [a])"
  by (cases e)
    (auto simp add: HandleEnqueue_def HandleDataPoll_def HandleTransmitComplete_def
      split: option.splits)

lemma step_transmit:
  "fst (step cfg e s) = [Transmit m fc kid off dsn] \<Longrightarrow> mMessage (info s) = Some m"
  by (cases e)
    (auto simp add: HandleEnqueue_def HandleDataPoll_def HandleTransmitComplete_def
      split: option.splits if_splits)

lemma run_pending:
  "consistent s \<Longrightarrow> accepted h = finished h @ pending s \<Longrightarrow>
   accepted (h @ run cfg es s) = finished (h @ run cfg es s) @ pending (exec cfg es s)"
proof (induction es arbitrary: h s)
  case Nil
  then show ?case by simp
next
  case (Cons e es)
  have "accepted ((h @ fst (step cfg e s)) @ run cfg es (snd (step cfg e s)))
      = finished ((h @ fst (step cfg e s)) @ run cfg es (snd (step cfg e s)))
        @ pending (exec cfg es (snd (step cfg e s)))"
    by (rule Cons.IH) (rule step_consistent [OF Cons.prems(1)], rule step_pending [OF Cons.prems])
  then show ?case by simp
qed

lemma run_transmit:
  "consistent s \<Longrightarrow> accepted h = finished h @ pending s \<Longrightarrow>
   run cfg es s = pre @ Transmit m fc kid off dsn # post \<Longrightarrow>
   \<exists>rest. accepted (h @ pre) = finished (h @ pre) @ m # rest"
proof (induction es arbitrary: h s pre)
  case Nil
  then show ?case by simp
next
  case (Cons e es)
  let ?a = "fst (step cfg e s)" and ?s = "snd (step cfg e s)"
  have cons: "consistent ?s" by (rule step_consistent [OF Cons.prems(1)])
  have inv: "accepted (h @ ?a) = finished (h @ ?a) @ pending ?s"
    by (rule step_pending [OF Cons.prems(1,2)])
  have run: "?a @ run cfg es ?s = pre @ Transmit m fc kid off dsn # post"
    using Cons.prems(3) by simp
  from step_actions [of cfg e s] show ?case
  proof
    assume none: "?a = []"
    with inv run Cons.IH [OF cons, of h pre] show ?thesis by simp
  next
    assume "\<exists>a. ?a = [a]"
    then obtain a where one: "?a = [a]" ..
    show ?thesis
    proof (cases pre)
      case Nil
      with run one have "?a = [Transmit m fc kid off dsn]" by simp
      then have "mMessage (info s) = Some m" by (rule step_transmit)
      with Cons.prems(2) Nil show ?thesis by (simp add: pending_def)
    next
      case (Cons b pre')
      with run one have b: "b = a" and tl: "run cfg es ?s = pre' @ Transmit m fc kid off dsn # post"
        by simp_all
      from inv one have "accepted (h @ [a]) = finished (h @ [a]) @ pending ?s" by simp
      from Cons.IH [OF cons this tl] Cons b show ?thesis by simp
    qed
  qed
qed

text \<open>
  Claim C7.  Start from a child with nothing in flight and nothing queued and let any
  events arrive.  The messages delivered or dropped by retry exhaustion are, in that
  order, an initial part of the messages accepted.  And whenever a message \<open>m\<close> is
  transmitted, the messages accepted up to that moment are the messages already finished
  (delivered or dropped by retry exhaustion), then \<open>m\<close>, then the messages still queued:
  a message enqueued before \<open>m\<close> was finished before \<open>m\<close> was first transmitted.  There
  are never two messages in flight, the child having the one slot \<open>mMessage\<close>.
\<close>

theorem indirect_delivery_fifo:
  assumes "idle s0"
  shows "(\<exists>rest. accepted (run cfg es s0) = finished (run cfg es s0) @ rest)
       \<and> (run cfg es s0 = pre @ Transmit m fc kid off dsn # post
            \<longrightarrow> (\<exists>rest. accepted pre = finished pre @ m # rest))"
proof -
  from assms have cons: "consistent s0" and start: "accepted [] = finished [] @ pending s0"
    by (simp_all add: idle_def consistent_def pending_def)
  from run_pending [OF cons start, of cfg es]
  have "\<exists>rest. accepted (run cfg es s0) = finished (run cfg es s0) @ rest"
    by auto
  moreover have "\<exists>rest. accepted pre = finished pre @ m # rest"
    if "run cfg es s0 = pre @ Transmit m fc kid off dsn # post"
    using run_transmit [OF cons start that] by simp
  ultimately show ?thesis by blast
qed

text \<open>
  Two messages for one child; the first fails once, is sent again and delivered, and
  only then the second is transmitted.
\<close>

lemma example_run:
  "run \<lparr>kRetryCap = 3, kQueueDepth = 4\<rparr> exampleEvents \<lparr>sChild = exampleChild, sQueue = []\<rparr>
   = [Accepted 1, Accepted 2, Transmit 1 100 1 0 7, Transmit 1 100 1 0 8, Delivered 1]
     @ Transmit 2 103 1 0 9 # []"
  by (simp add: exampleEvents_def exampleChild_def HandleEnqueue_def HandleDataPoll_def
      HandleTransmitComplete_def FinishCurrent_def BecomeInFlight_def info_def set_info_def
      count_def set_count_def)

theorem indirect_delivery_fifo_witness:
  "idle \<lparr>sChild = exampleChild, sQueue = []\<rparr>
   \<and> run \<lparr>kRetryCap = 3, kQueueDepth = 4\<rparr> exampleEvents \<lparr>sChild = exampleChild, sQueue = []\<rparr>
     = [Accepted 1, Accepted 2, Transmit 1 100 1 0 7, Transmit 1 100 1 0 8, Delivered 1]
       @ Transmit 2 103 1 0 9 # []
   \<and> (\<exists>rest. accepted [Accepted 1, Accepted 2, Transmit 1 100 1 0 7, Transmit 1 100 1 0 8,
                 Delivered (1::nat)]
        = finished [Accepted 1, Accepted 2, Transmit 1 100 1 0 7, Transmit 1 100 1 0 8,
                 Delivered 1] @ 2 # rest)"
proof -
  have start: "idle \<lparr>sChild = exampleChild, sQueue = []\<rparr>"
    by (simp add: idle_def info_def exampleChild_def)
  from indirect_delivery_fifo [OF start, THEN conjunct2, THEN mp, OF example_run] start example_run
  show ?thesis by blast
qed

subsection \<open>Allocation and release of table slots\<close>

lemma find_free_None: "find_free free xs = None \<longleftrightarrow> list_all (\<lambda>x. \<not> free x) xs"
  by (induction xs) auto

lemma find_free_update_free:
  "i < length xs \<Longrightarrow> free v \<Longrightarrow> \<exists>j\<le>i. find_free free (xs[i := v]) = Some j"
proof (induction xs arbitrary: i)
  case Nil
  then show ?case by simp
next
  case (Cons x xs)
  show ?case
  proof (cases i)
    case 0
    with Cons.prems show ?thesis by simp
  next
    case (Suc k)
    with Cons.prems have "k < length xs" by simp
    from Cons.IH [OF this Cons.prems(2)] obtain j where "j \<le> k" "find_free free (xs[k := v]) = Some j"
      by blast
    with Suc show ?thesis by auto
  qed
qed

lemma find_free_update_full:
  "list_all (\<lambda>x. \<not> free x) xs \<Longrightarrow> i < length xs \<Longrightarrow> free v \<Longrightarrow> find_free free (xs[i := v]) = Some i"
proof (induction xs arbitrary: i)
  case Nil
  then show ?case by simp
next
  case (Cons x xs)
  then show ?case by (cases i) simp_all
qed

lemma find_free_update_busy:
  "i < length xs \<Longrightarrow> \<not> free v \<Longrightarrow> find_free free (xs[i := v]) \<noteq> Some i"
proof (induction xs arbitrary: i)
  case Nil
  then show ?case by simp
next
  case (Cons x xs)
  then show ?case by (cases i) auto
qed

lemma list_all_update:
  "list_all P xs \<Longrightarrow> P v \<Longrightarrow> list_all P (xs[i := v])"
  by (induction xs arbitrary: i) (auto split: nat.splits)

lemma Allocate_full: "Full kind t \<Longrightarrow> Allocate kind t = (Inl TableFull, t)"
  by (cases kind) (simp_all add: find_free_None [symmetric])

lemma Child_reuse:
  assumes "i < length (tChildren t)"
  shows "\<exists>j\<le>i. fst (Allocate ChildEntry (Release ChildEntry i t)) = Inr j"
    and "Full ChildEntry t \<Longrightarrow> fst (Allocate ChildEntry (Release ChildEntry i t)) = Inr i"
proof -
  let ?v = "(tChildren t ! i)\<lparr>cInUse := False\<rparr>"
  have free: "ChildFree ?v" by (simp add: ChildFree_def)
  from find_free_update_free [OF assms, of ChildFree ?v, OF free]
  show "\<exists>j\<le>i. fst (Allocate ChildEntry (Release ChildEntry i t)) = Inr j"
    using assms by auto
  assume "Full ChildEntry t"
  then have "list_all (\<lambda>c. \<not> ChildFree c) (tChildren t)" by simp
  from find_free_update_full [OF this assms free]
  show "fst (Allocate ChildEntry (Release ChildEntry i t)) = Inr i"
    using assms by simp
qed

lemma Router_held:
  assumes "i < length (tRouters t)"
  shows "fst (Allocate RouterEntry (Release RouterEntry i t)) \<noteq> Inr i"
    and "Full RouterEntry t \<Longrightarrow> Allocate RouterEntry (Release RouterEntry i t) = (Inl TableFull, Release RouterEntry i t)"
proof -
  let ?v = "(tRouters t ! i)\<lparr>mAllocated := False, mReclaimDelay := True\<rparr>"
  have busy: "\<not> RouterFree ?v" by (simp add: RouterFree_def)
  from find_free_update_busy [OF assms, of RouterFree ?v, OF busy]
  show "fst (Allocate RouterEntry (Release RouterEntry i t)) \<noteq> Inr i"
    using assms by (auto split: option.splits)
  assume "Full RouterEntry t"
  then have "list_all (\<lambda>r. \<not> RouterFree r) (tRouters t)" by simp
  from list_all_update [OF this, of ?v i] busy
  have "Full RouterEntry (Release RouterEntry i t)" using assms by simp
  then show "Allocate RouterEntry (Release RouterEntry i t) = (Inl TableFull, Release RouterEntry i t)"
    by (rule Allocate_full)
qed

lemma Router_reuse:
  assumes "i < length (tRouters t)"
  shows "\<exists>j\<le>i. fst (Allocate RouterEntry (ReclaimDelayElapsed i (Release RouterEntry i t))) = Inr j"
    and "Full RouterEntry t \<Longrightarrow> fst (Allocate RouterEntry (ReclaimDelayElapsed i (Release RouterEntry i t))) = Inr i"
proof -
  let ?v = "(tRouters t ! i)\<lparr>mAllocated := False, mReclaimDelay := False\<rparr>"
  have free: "RouterFree ?v" by (simp add: RouterFree_def)
  have routers: "tRouters (ReclaimDelayElapsed i (Release RouterEntry i t)) = (tRouters t)[i := ?v]"
    using assms by (simp add: ReclaimDelayElapsed_def)
  from find_free_update_free [OF assms, of RouterFree ?v, OF free]
  show "\<exists>j\<le>i. fst (Allocate RouterEntry (ReclaimDelayElapsed i (Release RouterEntry i t))) = Inr j"
    using routers by auto
  assume "Full RouterEntry t"
  then have "list_all (\<lambda>r. \<not> RouterFree r) (tRouters t)" by simp
  from find_free_update_full [OF this assms free]
  show "fst (Allocate RouterEntry (ReclaimDelayElapsed i (Release RouterEntry i t))) = Inr i"
    using routers by simp
qed

text \<open>
  Claim C8.  On a table with no free slot of the requested kind \<open>Allocate\<close> returns
  \<open>TableFull\<close> and the table it leaves is the table it was given.  After the release of
  Child slot \<open>i\<close> the next \<open>Allocate\<close> succeeds at once, with slot \<open>i\<close> itself when
  the table was full before.  After the release of Router slot \<open>i\<close> the next \<open>Allocate\<close>
  does not return \<open>i\<close> (and returns \<open>TableFull\<close>, changing nothing, when the table was
  full before); once the reclaim delay of slot \<open>i\<close> has elapsed \<open>Allocate\<close> succeeds,
  with slot \<open>i\<close> itself when the table was full before.
\<close>

theorem Allocate_Release:
  "(Full kind t \<longrightarrow> Allocate kind t = (Inl TableFull, t))
   \<and> (i < length (tChildren t) \<longrightarrow>
        (\<exists>j\<le>i. fst (Allocate ChildEntry (Release ChildEntry i t)) = Inr j)
      \<and> (Full ChildEntry t \<longrightarrow> fst (Allocate ChildEntry (Release ChildEntry i t)) = Inr i))
   \<and> (i < length (tRouters t) \<longrightarrow>
        fst (Allocate RouterEntry (Release RouterEntry i t)) \<noteq> Inr i
      \<and> (Full RouterEntry t \<longrightarrow>
           Allocate RouterEntry (Release RouterEntry i t) = (Inl TableFull, Release RouterEntry i t))
      \<and> (\<exists>j\<le>i. fst (Allocate RouterEntry (ReclaimDelayElapsed i (Release RouterEntry i t))) = Inr j)
      \<and> (Full RouterEntry t \<longrightarrow>
           fst (Allocate RouterEntry (ReclaimDelayElapsed i (Release RouterEntry i t))) = Inr i))"
  using Allocate_full [of kind t] Child_reuse [of i t] Router_held [of i t] Router_reuse [of i t]
  by blast

text \<open>A full table of two Child slots and two Router slots, and the slot of index 1.\<close>

theorem Allocate_Release_witness:
  "Full ChildEntry exampleTable \<and> Full RouterEntry exampleTable
   \<and> 1 < length (tChildren exampleTable) \<and> 1 < length (tRouters exampleTable)
   \<and> Allocate RouterEntry exampleTable = (Inl TableFull, exampleTable)
   \<and> fst (Allocate ChildEntry (Release ChildEntry 1 exampleTable)) = Inr 1
   \<and> Allocate RouterEntry (Release RouterEntry 1 exampleTable)
       = (Inl TableFull, Release RouterEntry 1 exampleTable)
   \<and> fst (Allocate RouterEntry (ReclaimDelayElapsed 1 (Release RouterEntry 1 exampleTable))) = Inr 1"
proof -
  have full: "Full ChildEntry exampleTable" "Full RouterEntry exampleTable"
    by (simp_all add: exampleTable_def exampleRouter_def ChildFree_def RouterFree_def)
  have len: "1 < length (tChildren exampleTable)" "1 < length (tRouters exampleTable)"
    by (simp_all add: exampleTable_def)
  from Allocate_Release [of RouterEntry exampleTable 1] full len
  show ?thesis by blast
qed

end
